theory Spec2Isabelle
  imports Complex_Main "HOL-Library.Multiset"
begin

section \<open>Platform functions used by the application\<close>

text \<open>
  The application is TypeScript running on an ECMAScript engine.  The built-in
  functions it calls are modelled here, following the language specification.
  Conventions of the model:
  \<^item> a string is a list of code units below 256 (Latin-1 text);
  \<^item> numbers are exact: an integer-valued number is an \<open>int\<close>, any other number a
    \<open>rat\<close>; rounding to double precision and the range limit of time values
    (\<open>TimeClip\<close>) are not modelled, and \<open>NaN\<close> is \<open>None\<close> where a function can
    return it; \<open>-0\<close> and \<open>0\<close> are the same number;
  \<^item> a \<open>Date\<close> is its local time value in milliseconds, in a zone with a fixed
    offset (no daylight-saving transitions).
\<close>

subsection \<open>Strings\<close>

definition isWhiteSpace :: "char \<Rightarrow> bool" where
  \<comment> \<open>White space and line terminators: what \<open>trim\<close>, \<open>\s\<close> and \<open>parseInt\<close> skip.\<close>
  "isWhiteSpace c = (of_char c \<in> {9, 10, 11, 12, 13, 32, 160 :: nat})"

definition trimStart :: "string \<Rightarrow> string" where
  "trimStart s = dropWhile isWhiteSpace s"

definition trim :: "string \<Rightarrow> string" where
  "trim s = rev (dropWhile isWhiteSpace (rev (dropWhile isWhiteSpace s)))"

fun splitOn :: "char \<Rightarrow> string \<Rightarrow> string list" where
  \<comment> \<open>\<open>s.split(sep)\<close> for a one-character separator; \<open>"".split(sep)\<close> is \<open>[""]\<close>.\<close>
  "splitOn sep [] = [[]]"
| "splitOn sep (c # cs) =
     (if c = sep then [] # splitOn sep cs
      else (case splitOn sep cs of
              [] \<Rightarrow> [[c]]
            | p # ps \<Rightarrow> (c # p) # ps))"

function splitWhitespace :: "string \<Rightarrow> string list" where
  \<comment> \<open>\<open>s.split(/\s+/)\<close>: every maximal run of white space is one separator.\<close>
  "splitWhitespace s =
     (let piece = takeWhile (\<lambda>c. \<not> isWhiteSpace c) s;
          rest = dropWhile (\<lambda>c. \<not> isWhiteSpace c) s
      in if rest = [] then [piece]
         else piece # splitWhitespace (dropWhile isWhiteSpace rest))"
  by pat_completeness auto
termination
proof (relation "measure length", goal_cases)
  case 1
  show ?case by simp
next
  case (2 s piece rest)
  have "length (dropWhile isWhiteSpace rest) \<le> length rest"
    by (rule length_dropWhile_le)
  moreover have "length rest \<le> length s"
    using 2 by (simp add: length_dropWhile_le)
  moreover have "length (dropWhile isWhiteSpace rest) \<noteq> length s"
  proof
    assume eq: "length (dropWhile isWhiteSpace rest) = length s"
    with calculation have "length (dropWhile isWhiteSpace rest) = length rest" by linarith
    then have "dropWhile isWhiteSpace rest = rest"
      by (metis append_eq_conv_conj append_self_conv2 length_0_conv length_append
          takeWhile_dropWhile_id add_cancel_right_left)
    with 2 have "\<not> isWhiteSpace (hd rest)"
      by (metis dropWhile_eq_Cons_conv list.collapse list.sel(1))
    moreover from 2 have "isWhiteSpace (hd rest)"
      by (metis (mono_tags, lifting) hd_dropWhile)
    ultimately show False by simp
  qed
  ultimately show ?case by simp
qed

declare splitWhitespace.simps [simp del]

definition countMatches :: "char \<Rightarrow> string \<Rightarrow> nat" where
  \<comment> \<open>\<open>(s.match(/c/g) || []).length\<close> for a one-character pattern.\<close>
  "countMatches c s = length (filter (\<lambda>x. x = c) s)"

function toString :: "nat \<Rightarrow> string" where
  \<comment> \<open>A non-negative integer in a template literal: its decimal digits.\<close>
  "toString n =
     (if n < 10 then [char_of (48 + n)]
      else toString (n div 10) @ [char_of (48 + n mod 10)])"
  by pat_completeness auto
termination
  by (relation "measure id") auto

declare toString.simps [simp del]

subsection \<open>Numbers from strings\<close>

definition isDigit :: "char \<Rightarrow> bool" where
  "isDigit c = (48 \<le> (of_char c :: nat) \<and> (of_char c :: nat) \<le> 57)"

definition digitsValue :: "string \<Rightarrow> nat" where
  "digitsValue ds = foldl (\<lambda>a c. 10 * a + (of_char c - 48)) 0 ds"

definition stripSign :: "string \<Rightarrow> bool \<times> string" where
  \<comment> \<open>An optional leading \<open>+\<close> or \<open>-\<close>; the flag says the sign is negative.\<close>
  "stripSign s =
     (case s of
        [] \<Rightarrow> (False, [])
      | c # r \<Rightarrow>
          if c = CHR ''-'' then (True, r)
          else if c = CHR ''+'' then (False, r)
          else (False, s))"

definition parseInt :: "string \<Rightarrow> int option" where
  \<comment> \<open>\<open>parseInt(s, 10)\<close>: leading white space, a sign, then the longest run of
      decimal digits; \<open>NaN\<close> (\<open>None\<close>) when that run is empty.\<close>
  "parseInt s =
     (let (neg, u) = stripSign (trimStart s);
          z = takeWhile isDigit u
      in if z = [] then None
         else Some ((if neg then - 1 else 1) * int (digitsValue z)))"

datatype number = Num rat | Infinity | NegInfinity

definition exponentPart :: "string \<Rightarrow> int" where
  \<comment> \<open>The value of an exponent part at the head of \<open>s\<close>, 0 when there is none.\<close>
  "exponentPart s =
     (case s of
        [] \<Rightarrow> 0
      | c # r \<Rightarrow>
          if c = CHR ''e'' \<or> c = CHR ''E'' then
            (let (neg, d) = stripSign r;
                 ds = takeWhile isDigit d
             in if ds = [] then 0
                else (if neg then - 1 else 1) * int (digitsValue ds))
          else 0)"

definition parseFloat :: "string \<Rightarrow> number option" where
  \<comment> \<open>\<open>parseFloat(s)\<close>: the longest prefix of the trimmed string that is a
      decimal literal; \<open>NaN\<close> (\<open>None\<close>) when there is none.\<close>
  "parseFloat s =
     (let (neg, u) = stripSign (trimStart s)
      in if take 8 u = ''Infinity'' then Some (if neg then NegInfinity else Infinity)
         else
          (let ip = takeWhile isDigit u;
               r1 = dropWhile isDigit u;
               (fp, r2) = (case r1 of
                             [] \<Rightarrow> ([], [])
                           | c # r \<Rightarrow>
                               if c = CHR ''.'' then (takeWhile isDigit r, dropWhile isDigit r)
                               else ([], r1))
           in if ip = [] \<and> fp = [] then None
              else
               (let mant = of_nat (digitsValue ip) + of_nat (digitsValue fp) / 10 ^ length fp;
                    ex = exponentPart r2;
                    scale = (if 0 \<le> ex then 10 ^ nat ex else 1 / 10 ^ nat (- ex))
                in Some (Num ((if neg then - 1 else 1) * mant * scale)))))"

subsection \<open>Dates\<close>

type_synonym Date = int

definition msPerDay :: int where "msPerDay = 86400000"
definition msPerHour :: int where "msPerHour = 3600000"
definition msPerMinute :: int where "msPerMinute = 60000"

definition Day :: "int \<Rightarrow> int" where
  "Day t = t div msPerDay"

definition DayFromYear :: "int \<Rightarrow> int" where
  "DayFromYear y =
     365 * (y - 1970) + (y - 1969) div 4 - (y - 1901) div 100 + (y - 1601) div 400"

definition InLeapYear :: "int \<Rightarrow> bool" where
  "InLeapYear y = (y mod 4 = 0 \<and> (y mod 100 \<noteq> 0 \<or> y mod 400 = 0))"

definition daysBeforeMonth :: "bool \<Rightarrow> nat \<Rightarrow> int" where
  \<comment> \<open>Days of the year before the first day of month \<open>mn\<close> (0 is January).\<close>
  "daysBeforeMonth leap mn =
     [0, 31, 59, 90, 120, 151, 181, 212, 243, 273, 304, 334] ! mn
     + (if leap \<and> 2 \<le> mn then 1 else 0)"

definition MakeDay :: "int \<Rightarrow> int \<Rightarrow> int \<Rightarrow> int" where
  "MakeDay year month date =
     (let ym = year + month div 12;
          mn = month mod 12
      in DayFromYear ym + daysBeforeMonth (InLeapYear ym) (nat mn) + date - 1)"

definition MakeTime :: "int \<Rightarrow> int \<Rightarrow> int \<Rightarrow> int \<Rightarrow> int" where
  "MakeTime hour minute sec ms = hour * msPerHour + minute * msPerMinute + sec * 1000 + ms"

definition MakeDate :: "int \<Rightarrow> int \<Rightarrow> int" where
  "MakeDate day time = day * msPerDay + time"

definition newDate :: "int \<Rightarrow> int \<Rightarrow> int \<Rightarrow> int \<Rightarrow> int \<Rightarrow> Date" where
  \<comment> \<open>\<open>new Date(year, month, day, hour, minute)\<close>; a year from 0 to 99 means 1900 + year.\<close>
  "newDate year month day hour minute =
     (let yr = (if 0 \<le> year \<and> year \<le> 99 then 1900 + year else year)
      in MakeDate (MakeDay yr month day) (MakeTime hour minute 0 0))"

definition getTime :: "Date \<Rightarrow> int" where
  "getTime d = d"

definition getHours :: "Date \<Rightarrow> int" where
  "getHours d = (d div msPerHour) mod 24"

definition getMinutes :: "Date \<Rightarrow> int" where
  "getMinutes d = (d div msPerMinute) mod 60"

definition getDay :: "Date \<Rightarrow> int" where
  \<comment> \<open>Day of the week: 0 is Sunday, 6 is Saturday.\<close>
  "getDay d = (Day d + 4) mod 7"

section \<open>The event record (types.ts)\<close>

datatype EventId =
    ParsedId Date string nat  \<comment> \<open>\<open>`${start.toISOString()}-${title}-${index}`\<close>, by its three parts\<close>
  | NewId int                 \<comment> \<open>\<open>`new-${Date.now()}`\<close>\<close>

record ScheduleEvent =
  id_ev :: EventId
  start :: Date
  end_ev :: Date
  title :: string
  description :: string
  capacity :: int
  total_ev :: int
  waiting :: int
  price :: number
  color :: string

section \<open>Parsing and decoding (App.tsx)\<close>

subsection \<open>parseDate\<close>

definition parseDate :: "string \<Rightarrow> string \<Rightarrow> Date option" where
  \<comment> \<open>The format \<open>D/M/YYYY H:mm\<close>; \<open>None\<close> is the source's \<open>null\<close>.\<close>
  "parseDate dateStr timeStr =
     (let dateParts = splitOn CHR ''/'' dateStr;
          timeParts = splitOn CHR '':'' timeStr
      in if length dateParts = 3 \<and> length timeParts = 2 then
           (let day = parseInt (dateParts ! 0);
                month = map_option (\<lambda>m. m - 1) (parseInt (dateParts ! 1));
                year = parseInt (dateParts ! 2);
                hour = parseInt (timeParts ! 0);
                minute = parseInt (timeParts ! 1)
            in case (day, month, year, hour, minute) of
                 (Some d, Some m, Some y, Some h, Some mi) \<Rightarrow> Some (newDate y m d h mi)
               | _ \<Rightarrow> None)
         else None)"

subsection \<open>Colors\<close>

definition COLORS :: "string list" where
  "COLORS =
     [''bg-rose-200 border-rose-300'',
      ''bg-amber-200 border-amber-300'',
      ''bg-lime-200 border-lime-300'',
      ''bg-emerald-200 border-emerald-300'',
      ''bg-cyan-200 border-cyan-300'',
      ''bg-violet-200 border-violet-300'',
      ''bg-fuchsia-200 border-fuchsia-300'',
      ''bg-sky-200 border-sky-300'']"

definition TEXT_COLORS :: "string list" where
  "TEXT_COLORS =
     [''text-rose-800'',
      ''text-amber-800'',
      ''text-lime-800'',
      ''text-emerald-800'',
      ''text-cyan-800'',
      ''text-violet-800'',
      ''text-fuchsia-800'',
      ''text-sky-800'']"

text \<open>
  The color map is a \<open>Map\<close> from title to a pair (bg, text).  It is modelled as the
  list of its entries in insertion order; \<open>getColor\<close> only ever adds a key that is
  absent, so the keys stay distinct and \<open>size\<close> is the length of the list.
\<close>

type_synonym ColorMap = "(string \<times> (string \<times> string)) list"

datatype exn =
    Error string      \<comment> \<open>\<open>throw new Error(message)\<close>\<close>
  | TypeError string  \<comment> \<open>raised by the engine, with the engine's message\<close>

definition message :: "exn \<Rightarrow> string" where
  "message e = (case e of Error m \<Rightarrow> m | TypeError m \<Rightarrow> m)"

definition getColor :: "string \<Rightarrow> ColorMap \<Rightarrow> exn + ((string \<times> string) \<times> ColorMap)" where
  "getColor ttl colorMap =
     (let colorMap' =
            (if map_of colorMap ttl = None then
               (let index = length colorMap mod length COLORS
                in colorMap @ [(ttl, (COLORS ! index, TEXT_COLORS ! index))])
             else colorMap)
      in case map_of colorMap' ttl of
           None \<Rightarrow> Inl (Error (''Color not found for title: '' @ ttl))
         | Some c \<Rightarrow> Inr (c, colorMap'))"

subsection \<open>parseCSV\<close>

fun parseCSVLine :: "string \<Rightarrow> string list \<times> string \<times> bool \<Rightarrow> string list \<times> string \<times> bool" where
  \<comment> \<open>The inner loop over the characters of one line; the state is
      (currentRow, currentField, insideQuotes).\<close>
  "parseCSVLine [] st = st"
| "parseCSVLine [c] (currentRow, currentField, insideQuotes) =
     (if c = CHR 0x22 then (currentRow, currentField, \<not> insideQuotes)
      else if c = CHR '','' \<and> \<not> insideQuotes then (currentRow @ [trim currentField], [], insideQuotes)
      else (currentRow, currentField @ [c], insideQuotes))"
| "parseCSVLine (c # c' # cs) (currentRow, currentField, insideQuotes) =
     (if c = CHR 0x22 then
        (if insideQuotes \<and> c' = CHR 0x22
         then parseCSVLine cs (currentRow, currentField @ [CHR 0x22], insideQuotes)
         else parseCSVLine (c' # cs) (currentRow, currentField, \<not> insideQuotes))
      else if c = CHR '','' \<and> \<not> insideQuotes
        then parseCSVLine (c' # cs) (currentRow @ [trim currentField], [], insideQuotes)
      else parseCSVLine (c' # cs) (currentRow, currentField @ [c], insideQuotes))"

fun parseCSVLines ::
  "string list \<Rightarrow> string list list \<times> string list \<times> string \<times> bool
     \<Rightarrow> string list list \<times> string list \<times> string \<times> bool" where
  \<comment> \<open>The outer loop over the lines; the state adds \<open>result\<close> in front.\<close>
  "parseCSVLines [] st = st"
| "parseCSVLines (line # rest) (result, currentRow, currentField, insideQuotes) =
     (case parseCSVLine line (currentRow, currentField, insideQuotes) of
        (row, field, quoted) \<Rightarrow>
          if \<not> quoted then
            (let row' = row @ [trim field]
             in parseCSVLines rest
                  (if list_ex (\<lambda>f. 0 < length f) row' then result @ [row'] else result,
                   [], [], quoted))
          else parseCSVLines rest (result, row, field @ [CHR 0x0A], quoted))"

definition parseCSV :: "string \<Rightarrow> string list list" where
  "parseCSV text =
     (case parseCSVLines (splitOn CHR 0x0A text) ([], [], [], False) of
        (result, currentRow, currentField, insideQuotes) \<Rightarrow>
          if 0 < length currentRow \<or> 0 < length currentField
          then result @ [currentRow @ [trim currentField]]
          else result)"

subsection \<open>detectFormat\<close>

datatype Format = csv | tsv

definition detectFormat :: "string \<Rightarrow> Format" where
  "detectFormat text =
     (let firstLine = splitOn CHR 0x0A text ! 0;
          commaCount = countMatches CHR '','' firstLine;
          tabCount = countMatches CHR 0x09 firstLine
      in if commaCount > tabCount then csv else tsv)"

subsection \<open>handleGenerate\<close>

definition orZero :: "int option \<Rightarrow> int" where
  \<comment> \<open>\<open>parseInt(...) || 0\<close>: \<open>NaN\<close> and 0 are falsy.\<close>
  "orZero n = (case n of None \<Rightarrow> 0 | Some k \<Rightarrow> k)"

definition orZeroNumber :: "number option \<Rightarrow> number" where
  \<comment> \<open>\<open>parseFloat(...) || 0\<close>.\<close>
  "orZeroNumber x = (case x of None \<Rightarrow> Num 0 | Some v \<Rightarrow> v)"

definition undefinedSplit :: exn where
  \<comment> \<open>Calling \<open>timeStr.split\<close> when the destructured \<open>timeStr\<close> is \<open>undefined\<close>.\<close>
  "undefinedSplit = TypeError ''Cannot read properties of undefined (reading 'split')''"

definition decodeRow :: "nat \<Rightarrow> string list \<Rightarrow> ColorMap \<Rightarrow> exn + (ScheduleEvent \<times> ColorMap)" where
  \<comment> \<open>The callback of \<open>dataRows.map\<close>, with the color map it updates.  The two
      destructurings take the first two pieces of each split; a missing second
      piece is \<open>undefined\<close>, and \<open>parseDate\<close> then fails in \<open>timeStr.split\<close>.\<close>
  "decodeRow index columns colorMap =
     (if length columns < 8 then
        Inl (Error (''Row '' @ toString (index + 2) @ '': Not enough columns. Expected 8, found ''
                    @ toString (length columns) @ ''.''))
      else
        (case splitWhitespace (columns ! 0) of
           startDateStr # startTimeStr # _ \<Rightarrow>
             (case splitWhitespace (columns ! 1) of
                endDateStr # endTimeStr # _ \<Rightarrow>
                  (case (parseDate startDateStr startTimeStr, parseDate endDateStr endTimeStr) of
                     (Some start', Some end') \<Rightarrow>
                       (case getColor (columns ! 2) colorMap of
                          Inl e \<Rightarrow> Inl e
                        | Inr ((bg, text), colorMap') \<Rightarrow>
                            Inr (\<lparr> id_ev = ParsedId start' (columns ! 2) index,
                                   start = start',
                                   end_ev = end',
                                   title = columns ! 2,
                                   description = columns ! 3,
                                   capacity = orZero (parseInt (columns ! 4)),
                                   total_ev = orZero (parseInt (columns ! 5)),
                                   waiting = orZero (parseInt (columns ! 6)),
                                   price = orZeroNumber (parseFloat (columns ! 7)),
                                   color = bg @ '' '' @ text \<rparr>,
                                 colorMap'))
                   | _ \<Rightarrow>
                       Inl (Error (''Row '' @ toString (index + 2) @ '': Invalid date/time format in ''
                                   @ [CHR 0x22] @ columns ! 0 @ [CHR 0x22] @ '' or ''
                                   @ [CHR 0x22] @ columns ! 1 @ [CHR 0x22] @ ''.'')))
              | _ \<Rightarrow> Inl undefinedSplit)
         | _ \<Rightarrow> Inl undefinedSplit))"

fun decodeRows :: "nat \<Rightarrow> string list list \<Rightarrow> ColorMap \<Rightarrow> exn + (ScheduleEvent list \<times> ColorMap)" where
  \<comment> \<open>\<open>dataRows.map(...)\<close> from row \<open>index\<close> on: the first exception ends it.\<close>
  "decodeRows index [] colorMap = Inr ([], colorMap)"
| "decodeRows index (columns # rest) colorMap =
     (case decodeRow index columns colorMap of
        Inl e \<Rightarrow> Inl e
      | Inr (ev, colorMap') \<Rightarrow>
          (case decodeRows (Suc index) rest colorMap' of
             Inl e \<Rightarrow> Inl e
           | Inr (evs, colorMap'') \<Rightarrow> Inr (ev # evs, colorMap'')))"

definition decodeEvents :: "string list list \<Rightarrow> exn + ScheduleEvent list" where
  \<comment> \<open>\<open>parsedEvents\<close>: the map over the data rows with a fresh color map.  The
      filter after it keeps every event, a \<open>Date\<close> object being truthy.\<close>
  "decodeEvents dataRows =
     (case decodeRows 0 dataRows [] of
        Inl e \<Rightarrow> Inl e
      | Inr (evs, _) \<Rightarrow> Inr evs)"

record AppState =
  events :: "ScheduleEvent list"
  error :: "string option"
  currentWeekStart :: "Date option"

datatype Input =
    TextInput string  \<comment> \<open>text mode, with the pasted \<open>inputData\<close>\<close>
  | FileInput string  \<comment> \<open>file mode, with the content the reader delivers\<close>
  | NoFile            \<comment> \<open>file mode, no file selected\<close>

definition parseRows :: "string \<Rightarrow> string list list" where
  \<comment> \<open>Format detection, parsing, and the removal of rows with only empty cells.\<close>
  "parseRows rawData =
     (let parsedRows =
            (if detectFormat rawData = csv then parseCSV rawData
             else map (\<lambda>line. map trim (splitOn CHR 0x09 line)) (splitOn CHR 0x0A rawData))
      in filter (\<lambda>row. list_ex (\<lambda>cell. 0 < length cell) row) parsedRows)"

definition mondayOf :: "Date \<Rightarrow> Date" where
  \<comment> \<open>\<open>setDate(getDate() - offset)\<close> moves back whole days and
      \<open>setHours(0, 0, 0, 0)\<close> then drops the time within the day.\<close>
  "mondayOf firstEventDate =
     (let dayOfWeek = getDay firstEventDate;
          offset = (if dayOfWeek = 0 then 6 else dayOfWeek - 1)
      in Day (firstEventDate - offset * msPerDay) * msPerDay)"

definition caught :: "AppState \<Rightarrow> exn \<Rightarrow> AppState" where
  \<comment> \<open>The \<open>catch\<close> block; both exception kinds are instances of \<open>Error\<close>.\<close>
  "caught st e =
     st\<lparr> error := Some (''Failed to parse data: '' @ message e),
         events := [],
         currentWeekStart := None \<rparr>"

definition generateFromRows :: "AppState \<Rightarrow> string list list \<Rightarrow> AppState" where
  \<comment> \<open>From the length check on \<open>parsedRows\<close> to the end of the \<open>try\<close>.  The sort
      is in place, on the array already handed to \<open>setEvents\<close>.\<close>
  "generateFromRows st parsedRows =
     (if length parsedRows < 2 then
        st\<lparr> error := Some ''File must contain at least a header row and one data row.'' \<rparr>
      else
        (case decodeEvents (drop 1 parsedRows) of
           Inl e \<Rightarrow> caught st e
         | Inr parsedEvents \<Rightarrow>
             (if 0 < length parsedEvents then
                (let sorted = sort_key (\<lambda>e. getTime (start e)) parsedEvents
                 in st\<lparr> events := sorted,
                        currentWeekStart := Some (mondayOf (start (sorted ! 0))) \<rparr>)
              else st\<lparr> events := parsedEvents \<rparr>)))"

definition handleGenerate :: "AppState \<Rightarrow> Input \<Rightarrow> AppState" where
  "handleGenerate st0 input =
     (let st = st0\<lparr> error := None \<rparr>
      in case input of
           FileInput content \<Rightarrow>
             if content = [] then caught st (Error ''Failed to read file content'')
             else generateFromRows st (parseRows content)
         | TextInput inputData \<Rightarrow>
             if trim inputData \<noteq> [] then generateFromRows st (parseRows (trim inputData))
             else st\<lparr> error :=
                    Some ''Please provide schedule data either by uploading a file or pasting text.'' \<rparr>
         | NoFile \<Rightarrow>
             st\<lparr> error :=
                 Some ''Please provide schedule data either by uploading a file or pasting text.'' \<rparr>)"


section \<open>The weekly grid (components/Schedule.tsx)\<close>

definition HOUR_HEIGHT :: rat where "HOUR_HEIGHT = 60"
definition CALENDAR_START_HOUR :: rat where "CALENDAR_START_HOUR = 6"
definition CALENDAR_END_HOUR :: rat where "CALENDAR_END_HOUR = 23"
definition GAP_MARKER_HEIGHT :: rat where "GAP_MARKER_HEIGHT = 16"
definition MIN_COLLAPSIBLE_GAP_MINUTES :: rat where "MIN_COLLAPSIBLE_GAP_MINUTES = 60"

subsection \<open>The event form: handleSave\<close>

record FormData =
  \<comment> \<open>A partial \<open>ScheduleEvent\<close>: the fields the validation reads may be absent.\<close>
  form_id :: "EventId option"
  form_title :: "string option"
  form_start :: "Date option"
  form_end :: "Date option"
  form_description :: "string option"

datatype SaveOutcome =
    Alert string     \<comment> \<open>\<open>alert(message); return\<close>: \<open>onSave\<close> is not called\<close>
  | OnSave FormData  \<comment> \<open>\<open>onSave(formData)\<close>\<close>

definition handleSave :: "FormData \<Rightarrow> SaveOutcome" where
  \<comment> \<open>An absent or empty title is falsy; a \<open>Date\<close> object never is.\<close>
  "handleSave formData =
     (case (form_title formData, form_start formData, form_end formData) of
        (Some ttl, Some start', Some end') \<Rightarrow>
          if ttl = [] then Alert ''Title, start time, and end time are required.''
          else if start' \<ge> end' then Alert ''End time must be after start time.''
          else OnSave formData
      | _ \<Rightarrow> Alert ''Title, start time, and end time are required.'')"

subsection \<open>The visible window and the merged busy intervals\<close>

definition minutesOfDay :: "Date \<Rightarrow> rat" where
  "minutesOfDay date = of_int (getHours date * 60 + getMinutes date)"

definition visibleWindow :: "ScheduleEvent list \<Rightarrow> rat \<times> rat" where
  \<comment> \<open>(visibleStartMin, visibleEndMin).  The loop starts from \<open>Infinity\<close> and
      \<open>-Infinity\<close>, so its first round always takes the first event's values.\<close>
  "visibleWindow evs =
     (case evs of
        [] \<Rightarrow> (CALENDAR_START_HOUR * 60, CALENDAR_END_HOUR * 60)
      | e0 # rest \<Rightarrow>
          (let minStart = fold (\<lambda>e m. if minutesOfDay (start e) < m then minutesOfDay (start e) else m)
                            rest (minutesOfDay (start e0));
               maxEnd = fold (\<lambda>e m. if minutesOfDay (end_ev e) > m then minutesOfDay (end_ev e) else m)
                          rest (minutesOfDay (end_ev e0))
           in (max 0 (of_int \<lfloor>minStart / 60\<rfloor> * 60),
               min (24 * 60) (of_int \<lceil>maxEnd / 60\<rceil> * 60))))"

definition visibleStartMin :: "ScheduleEvent list \<Rightarrow> rat" where
  "visibleStartMin evs = fst (visibleWindow evs)"

definition visibleEndMin :: "ScheduleEvent list \<Rightarrow> rat" where
  "visibleEndMin evs = snd (visibleWindow evs)"

record Interval =
  ivStart :: rat
  ivEnd :: rat

definition clippedIntervals :: "ScheduleEvent list \<Rightarrow> Interval list" where
  \<comment> \<open>The first loop of \<open>unionIntervals\<close>: each event clipped to the window,
      kept when something is left of it.\<close>
  "clippedIntervals evs =
     filter (\<lambda>iv. ivEnd iv > ivStart iv)
       (map (\<lambda>e. \<lparr> ivStart = max (visibleStartMin evs) (minutesOfDay (start e)),
                   ivEnd = min (visibleEndMin evs) (minutesOfDay (end_ev e)) \<rparr>) evs)"

definition mergeStep :: "Interval list \<Rightarrow> Interval \<Rightarrow> Interval list" where
  \<comment> \<open>One round of the merge loop: push a copy, or extend the last interval.\<close>
  "mergeStep merged iv =
     (if length merged = 0 \<or> ivStart iv > ivEnd (last merged) then merged @ [iv]
      else butlast merged @ [(last merged)\<lparr> ivEnd := max (ivEnd (last merged)) (ivEnd iv) \<rparr>])"

definition unionIntervals :: "ScheduleEvent list \<Rightarrow> Interval list" where
  "unionIntervals evs = foldl mergeStep [] (sort_key ivStart (clippedIntervals evs))"

subsection \<open>Segments and the coordinate mapping\<close>

datatype SegmentType = visible | gap

record Segment =
  segType :: SegmentType
  segStart :: rat
  segEnd :: rat
  height :: rat

definition visibleSegment :: "rat \<Rightarrow> rat \<Rightarrow> Segment" where
  "visibleSegment s e =
     \<lparr> segType = visible, segStart = s, segEnd = e, height = ((e - s) / 60) * HOUR_HEIGHT \<rparr>"

definition betweenSegments :: "Interval \<Rightarrow> Interval \<Rightarrow> Segment list" where
  \<comment> \<open>What the loop pushes for the space between \<open>cur\<close> and \<open>next\<close>.\<close>
  "betweenSegments cur next =
     (let gapStart = ivEnd cur;
          gapEnd = ivStart next;
          gapMinutes = gapEnd - gapStart
      in if gapMinutes > 0 then
           (if gapMinutes \<ge> MIN_COLLAPSIBLE_GAP_MINUTES then
              [\<lparr> segType = gap, segStart = gapStart, segEnd = gapEnd, height = GAP_MARKER_HEIGHT \<rparr>]
            else [visibleSegment gapStart gapEnd])
         else [])"

fun segmentsLoop :: "Interval list \<Rightarrow> Segment list" where
  \<comment> \<open>The loop over the merged intervals, from index \<open>i\<close> on.\<close>
  "segmentsLoop [] = []"
| "segmentsLoop [cur] = [visibleSegment (ivStart cur) (ivEnd cur)]"
| "segmentsLoop (cur # next # rest) =
     visibleSegment (ivStart cur) (ivEnd cur) # betweenSegments cur next @ segmentsLoop (next # rest)"

definition segments :: "ScheduleEvent list \<Rightarrow> Segment list" where
  "segments evs =
     (if visibleEndMin evs \<le> visibleStartMin evs then []
      else if length (unionIntervals evs) = 0 then
        [visibleSegment (visibleStartMin evs) (visibleEndMin evs)]
      else segmentsLoop (unionIntervals evs))"

definition totalHeight :: "ScheduleEvent list \<Rightarrow> rat" where
  "totalHeight evs = foldl (\<lambda>acc s. acc + height s) 0 (segments evs)"

fun mapLoop :: "rat \<Rightarrow> Segment list \<Rightarrow> rat \<Rightarrow> rat" where
  \<comment> \<open>The loop of \<open>mapMinToY\<close> over the remaining segments, with the running \<open>y\<close>.\<close>
  "mapLoop clamped [] y = y"
| "mapLoop clamped (seg # rest) y =
     (if clamped < segStart seg then y
      else if clamped \<ge> segEnd seg then mapLoop clamped rest (y + height seg)
      else if segType seg = visible then y + ((clamped - segStart seg) / 60) * HOUR_HEIGHT
      else y + 0)"

definition mapMinToY :: "ScheduleEvent list \<Rightarrow> rat \<Rightarrow> rat" where
  "mapMinToY evs absMin =
     (let clamped = max (visibleStartMin evs) (min absMin (visibleEndMin evs))
      in mapLoop clamped (segments evs) 0)"

subsection \<open>Event positions, day columns and overlap packing\<close>

record Position =
  top :: rat
  posHeight :: rat
  dayIndex :: int

definition getEventPosition :: "ScheduleEvent list \<Rightarrow> ScheduleEvent \<Rightarrow> Position" where
  "getEventPosition evs event =
     (let startMin = minutesOfDay (start event);
          endMin = minutesOfDay (end_ev event);
          top' = mapMinToY evs startMin;
          mappedEnd = mapMinToY evs endMin;
          dayIndex' = getDay (start event) - 1
      in \<lparr> top = top',
           posHeight = max (mappedEnd - top') 20,
           dayIndex = (if dayIndex' = - 1 then 6 else dayIndex') \<rparr>)"

definition groupByDay :: "ScheduleEvent list \<Rightarrow> ScheduleEvent list list" where
  \<comment> \<open>\<open>grouped\<close>, with keys 0 to 6, after the first \<open>forEach\<close>.\<close>
  "groupByDay evs =
     foldl (\<lambda>grouped event.
              let d = dayIndex (getEventPosition evs event)
              in if 0 \<le> d \<and> d < 7 then grouped[nat d := grouped ! nat d @ [event]] else grouped)
       (replicate 7 []) evs"

fun place :: "ScheduleEvent list list \<Rightarrow> ScheduleEvent \<Rightarrow> ScheduleEvent list list" where
  \<comment> \<open>One event into the first column whose last event ends by its start, else
      into a new column.  Every column holds an event from the moment it is made.\<close>
  "place [] event = [[event]]"
| "place (col # columns) event =
     (if getTime (end_ev (last col)) \<le> getTime (start event) then (col @ [event]) # columns
      else col # place columns event)"

definition sortByStart :: "ScheduleEvent list \<Rightarrow> ScheduleEvent list" where
  \<comment> \<open>\<open>dayEvents.sort((a, b) => a.start.getTime() - b.start.getTime())\<close>; the sort is stable.\<close>
  "sortByStart dayEvents = sort_key (\<lambda>e. getTime (start e)) dayEvents"

definition packColumns :: "ScheduleEvent list \<Rightarrow> ScheduleEvent list list" where
  \<comment> \<open>\<open>columns\<close> for one day's events.\<close>
  "packColumns dayEvents = foldl place [] (sortByStart dayEvents)"

definition assignColumns :: "ScheduleEvent list list \<Rightarrow> (ScheduleEvent \<times> nat \<times> nat) list" where
  \<comment> \<open>The fields written on each event: (event, colIndex, totalCols).\<close>
  "assignColumns columns =
     concat (map (\<lambda>(colIndex, col). map (\<lambda>event. (event, colIndex, length columns)) col)
               (enumerate 0 columns))"

definition eventsByDay :: "ScheduleEvent list \<Rightarrow> ScheduleEvent list list" where
  \<comment> \<open>The returned \<open>grouped\<close>: each day's events, sorted by start.\<close>
  "eventsByDay evs = map sortByStart (groupByDay evs)"

definition visibleDayIndices :: "ScheduleEvent list \<Rightarrow> nat list" where
  "visibleDayIndices evs =
     [0, 1, 2, 3, 4]
     @ (if length (eventsByDay evs ! 5) > 0 then [5] else [])
     @ (if length (eventsByDay evs ! 6) > 0 then [6] else [])"

section \<open>Notions used to state the properties\<close>

subsection \<open>Merged intervals and segments\<close>

definition separated :: "Interval \<Rightarrow> Interval \<Rightarrow> bool" where
  \<comment> \<open>\<open>a\<close> ends strictly before \<open>b\<close> starts.\<close>
  "separated a b = (ivEnd a < ivStart b)"

definition inWindow :: "rat \<Rightarrow> rat \<Rightarrow> Interval \<Rightarrow> bool" where
  \<comment> \<open>A non-empty interval inside the window from \<open>lo\<close> to \<open>hi\<close>.\<close>
  "inWindow lo hi iv = (lo \<le> ivStart iv \<and> ivStart iv < ivEnd iv \<and> ivEnd iv \<le> hi)"

definition mergedOk :: "rat \<Rightarrow> rat \<Rightarrow> Interval list \<Rightarrow> bool" where
  \<comment> \<open>The invariant of the merge loop.\<close>
  "mergedOk lo hi ms = ((\<forall>m\<in>set ms. inWindow lo hi m) \<and> sorted_wrt separated ms)"

definition between :: "Interval \<Rightarrow> Interval \<Rightarrow> Segment" where
  \<comment> \<open>The segment for the idle stretch from the end of \<open>cur\<close> to the start of \<open>nxt\<close>.\<close>
  "between cur nxt =
     (if ivStart nxt - ivEnd cur \<ge> 60
      then \<lparr> segType = gap, segStart = ivEnd cur, segEnd = ivStart nxt, height = 16 \<rparr>
      else \<lparr> segType = visible, segStart = ivEnd cur, segEnd = ivStart nxt,
             height = ivStart nxt - ivEnd cur \<rparr>)"

definition segmentOk :: "Segment \<Rightarrow> bool" where
  \<comment> \<open>Heights are not negative, and a visible segment is as high as it is long.\<close>
  "segmentOk s =
     (0 \<le> height s \<and> (segType s = visible \<longrightarrow> height s = segEnd s - segStart s))"

subsection \<open>Overlap of events\<close>

definition contains :: "int \<Rightarrow> ScheduleEvent \<Rightarrow> bool" where
  \<comment> \<open>The event is running at the instant \<open>t\<close>: its time range is [start, end).\<close>
  "contains t e = (getTime (start e) \<le> t \<and> t < getTime (end_ev e))"

definition overlapCount :: "ScheduleEvent list \<Rightarrow> int \<Rightarrow> nat" where
  \<comment> \<open>How many events of the list are running at the instant \<open>t\<close>.\<close>
  "overlapCount evs t = length (filter (contains t) evs)"

definition overlap :: "ScheduleEvent \<Rightarrow> ScheduleEvent \<Rightarrow> bool" where
  \<comment> \<open>The two time ranges share an instant.\<close>
  "overlap a b =
     (getTime (start a) < getTime (end_ev b) \<and> getTime (start b) < getTime (end_ev a))"

definition precedes :: "ScheduleEvent \<Rightarrow> ScheduleEvent \<Rightarrow> bool" where
  "precedes a b = (getTime (end_ev a) \<le> getTime (start b))"

definition positive :: "ScheduleEvent \<Rightarrow> bool" where
  "positive e = (getTime (start e) < getTime (end_ev e))"

definition columnOk :: "ScheduleEvent list \<Rightarrow> bool" where
  \<comment> \<open>The invariant of one column during the packing.\<close>
  "columnOk col = (col \<noteq> [] \<and> sorted_wrt precedes col \<and> (\<forall>e\<in>set col. positive e))"

definition tight :: "ScheduleEvent list list \<Rightarrow> bool" where
  \<comment> \<open>At some instant as many placed events are running as there are columns.\<close>
  "tight cols =
     (cols = [] \<or> (\<exists>t. length cols \<le> length (filter (contains t) (concat cols))))"

subsection \<open>Decoding\<close>

definition rowDates :: "string list \<Rightarrow> (Date \<times> Date) option" where
  \<comment> \<open>The start and end of a row that passes the column-count check and the
      date/time checks of the decoder; \<open>None\<close> for any other row.\<close>
  "rowDates columns =
     (if length columns < 8 then None
      else case splitWhitespace (columns ! 0) of
             sd # st # _ \<Rightarrow>
               (case splitWhitespace (columns ! 1) of
                  ed # et # _ \<Rightarrow>
                    (case (parseDate sd st, parseDate ed et) of
                       (Some s, Some e) \<Rightarrow> Some (s, e)
                     | _ \<Rightarrow> None)
                | _ \<Rightarrow> None)
           | _ \<Rightarrow> None)"

definition rowChecksPass :: "string list \<Rightarrow> bool" where
  "rowChecksPass columns = (rowDates columns \<noteq> None)"

definition paletteEntry :: "nat \<Rightarrow> string \<times> string" where
  \<comment> \<open>The pair (bg, text) at an index of the palette.\<close>
  "paletteEntry i = (COLORS ! i, TEXT_COLORS ! i)"

definition colorString :: "nat \<Rightarrow> string" where
  \<comment> \<open>The \<open>color\<close> of an event that got the palette entry \<open>i\<close>.\<close>
  "colorString i = fst (paletteEntry i) @ '' '' @ snd (paletteEntry i)"

definition distinctBefore :: "string list \<Rightarrow> string \<Rightarrow> nat" where
  \<comment> \<open>The number of distinct titles in the list before the first \<open>ttl\<close>.\<close>
  "distinctBefore titles ttl = card (set (takeWhile (\<lambda>t. t \<noteq> ttl) titles))"

definition consistent :: "ColorMap \<Rightarrow> string list \<Rightarrow> bool" where
  \<comment> \<open>The invariant of the color map after the titles \<open>seen\<close>.\<close>
  "consistent cm seen =
     (distinct (map fst cm) \<and> set (map fst cm) = set seen
      \<and> (\<forall>(t, c)\<in>set cm. c = paletteEntry (distinctBefore seen t mod 8)))"








section \<open>Sample inputs\<close>

definition sampleEvent :: "int \<Rightarrow> int \<Rightarrow> int \<Rightarrow> int \<Rightarrow> int \<Rightarrow> string \<Rightarrow> ScheduleEvent" where
  \<comment> \<open>An event on a day of September 2025, from h1:m1 to h2:m2.\<close>
  "sampleEvent day h1 m1 h2 m2 ttl =
     \<lparr> id_ev = NewId 0,
       start = newDate 2025 8 day h1 m1,
       end_ev = newDate 2025 8 day h2 m2,
       title = ttl,
       description = [],
       capacity = 0,
       total_ev = 0,
       waiting = 0,
       price = Num 0,
       color = [] \<rparr>"

definition yogaRow :: "string list" where
  "yogaRow = [''1/9/2025 9:00'', ''1/9/2025 10:00'', ''Yoga'', [], ''10'', ''1'', ''0'', ''5'']"

definition pilatesRow :: "string list" where
  "pilatesRow = [''1/9/2025 9:30'', ''1/9/2025 10:30'', ''Pilates'', [], ''abc'', ''1'', ''0'', ''5'']"

definition yogaEvent :: ScheduleEvent where
  \<comment> \<open>1 September 2025, 9:00 to 10:00.\<close>
  "yogaEvent =
     \<lparr> id_ev = ParsedId 1756717200000 ''Yoga'' 0,
       start = 1756717200000,
       end_ev = 1756720800000,
       title = ''Yoga'',
       description = [],
       capacity = 10,
       total_ev = 1,
       waiting = 0,
       price = Num 5,
       color = ''bg-rose-200 border-rose-300 text-rose-800'' \<rparr>"

definition pilatesEvent :: ScheduleEvent where
  \<comment> \<open>1 September 2025, 9:30 to 10:30.\<close>
  "pilatesEvent =
     \<lparr> id_ev = ParsedId 1756719000000 ''Pilates'' 1,
       start = 1756719000000,
       end_ev = 1756722600000,
       title = ''Pilates'',
       description = [],
       capacity = 0,
       total_ev = 1,
       waiting = 0,
       price = Num 5,
       color = ''bg-amber-200 border-amber-300 text-amber-800'' \<rparr>"




definition reversedRow :: "string list" where
  \<comment> \<open>Eight fields; the end is an hour before the start.\<close>
  "reversedRow = [''1/9/2025 10:00'', ''1/9/2025 9:00'', ''Yoga'', [], ''10'', ''1'', ''0'', ''5'']"

definition headerRow :: "string list" where
  "headerRow = [''Start'', ''End'', ''Title'', ''Description'', ''Capacity'', ''Total'', ''Waiting'', ''Price'']"

definition emptyState :: AppState where
  \<comment> \<open>The state of the application before any input.\<close>
  "emptyState = \<lparr> events = [], error = None, currentWeekStart = None \<rparr>"

definition reversedEvent :: ScheduleEvent where
  \<comment> \<open>1 September 2025, from 10:00 to 9:00.\<close>
  "reversedEvent =
     \<lparr> id_ev = ParsedId 1756720800000 ''Yoga'' 0,
       start = 1756720800000,
       end_ev = 1756717200000,
       title = ''Yoga'',
       description = [],
       capacity = 10,
       total_ev = 1,
       waiting = 0,
       price = Num 5,
       color = ''bg-rose-200 border-rose-300 text-rose-800'' \<rparr>"

definition joinWith :: "char \<Rightarrow> string list \<Rightarrow> string" where
  \<comment> \<open>The parts with the separator between them.\<close>
  "joinWith sep parts = (case parts of [] \<Rightarrow> [] | p # ps \<Rightarrow> foldl (\<lambda>acc q. acc @ sep # q) p ps)"

definition tsvText :: "string list list \<Rightarrow> string" where
  \<comment> \<open>Rows as tab-separated text, one line per row.\<close>
  "tsvText rows = joinWith CHR 0x0A (map (joinWith CHR 0x09) rows)"

lemmas date_defs =
  newDate_def MakeDate_def MakeDay_def MakeTime_def Day_def DayFromYear_def InLeapYear_def
  daysBeforeMonth_def msPerDay_def msPerHour_def msPerMinute_def getDay_def getHours_def
  getMinutes_def getTime_def

section \<open>Properties of the parser and decoder\<close>

subsection \<open>Splitting and counting\<close>

lemma splitOn_nonempty: "splitOn sep s \<noteq> []"
  by (induction s) (auto split: list.splits)

lemma splitOn_first_line:
  "sep \<notin> set l \<Longrightarrow> splitOn sep (l @ sep # rest) ! 0 = l"
  by (induction l) (auto split: list.splits simp: splitOn_nonempty)

lemma splitOn_single_line:
  "sep \<notin> set l \<Longrightarrow> splitOn sep l = [l]"
  by (induction l) (auto split: list.splits)

lemma countMatches_count_list: "countMatches c s = count_list s c"
  by (induction s) (auto simp: countMatches_def)

subsection \<open>Format detection\<close>

text \<open>
  Claim C7.  The format is decided by the first line of the input alone, that is
  by the text before the first line feed: the input is parsed as CSV when that
  line holds strictly more commas than tabs, and as TSV otherwise, ties and the
  absence of both included.  The rows handed on are the parsed rows that have
  a non-empty cell.
\<close>

theorem detectFormat_by_first_line:
  assumes "CHR 0x0A \<notin> set firstLine"
    and "text = firstLine \<or> (\<exists>rest. text = firstLine @ CHR 0x0A # rest)"
  shows "detectFormat text =
           (if count_list firstLine CHR '','' > count_list firstLine CHR 0x09 then csv else tsv)
         \<and> parseRows text =
             filter (\<lambda>row. list_ex (\<lambda>cell. 0 < length cell) row)
               (if count_list firstLine CHR '','' > count_list firstLine CHR 0x09
                then parseCSV text
                else map (\<lambda>line. map trim (splitOn CHR 0x09 line)) (splitOn CHR 0x0A text))"
proof -
  have first: "splitOn CHR 0x0A text ! 0 = firstLine"
    using assms by (auto simp: splitOn_first_line splitOn_single_line)
  have d: "detectFormat text =
           (if count_list firstLine CHR '','' > count_list firstLine CHR 0x09 then csv else tsv)"
    by (simp add: detectFormat_def first countMatches_count_list)
  show ?thesis
    unfolding parseRows_def d by simp
qed

theorem detectFormat_by_first_line_witness:
  "CHR 0x0A \<notin> set ''a,b,c''
   \<and> detectFormat (''a,b,c'' @ CHR 0x0A # ''1,2'') = csv
   \<and> CHR 0x0A \<notin> set (''a,b'' @ [CHR 0x09, CHR 0x09])
   \<and> detectFormat (''a,b'' @ [CHR 0x09, CHR 0x09]) = tsv"
  using detectFormat_by_first_line [of "''a,b,c''" "''a,b,c'' @ CHR 0x0A # ''1,2''"]
    detectFormat_by_first_line [of "''a,b'' @ [CHR 0x09, CHR 0x09]" "''a,b'' @ [CHR 0x09, CHR 0x09]"]
  by simp

section \<open>Properties of the weekly grid\<close>

subsection \<open>Day columns\<close>

lemma getDay_range: "0 \<le> getDay d \<and> getDay d < 7"
  by (simp add: getDay_def)

lemma dayIndex_getEventPosition:
  "dayIndex (getEventPosition evs e) = (if getDay (start e) = 0 then 6 else getDay (start e) - 1)"
  by (simp add: getEventPosition_def Let_def)

lemma dayIndex_range:
  "0 \<le> dayIndex (getEventPosition evs e) \<and> dayIndex (getEventPosition evs e) < 7"
  using getDay_range [of "start e"] by (simp add: dayIndex_getEventPosition)

lemma groupByDay_fold:
  "length g = 7 \<Longrightarrow> i < 7 \<Longrightarrow>
   foldl (\<lambda>grouped event.
            let d = dayIndex (getEventPosition evs event)
            in if 0 \<le> d \<and> d < 7 then grouped[nat d := grouped ! nat d @ [event]] else grouped) g xs ! i
   = g ! i @ filter (\<lambda>e. dayIndex (getEventPosition evs e) = int i) xs"
proof (induction xs arbitrary: g)
  case Nil
  then show ?case by simp
next
  case (Cons x xs)
  let ?d = "dayIndex (getEventPosition evs x)"
  have r: "0 \<le> ?d \<and> ?d < 7" by (rule dayIndex_range)
  let ?g = "g[nat ?d := g ! nat ?d @ [x]]"
  have len: "length ?g = 7" using Cons.prems by simp
  have "?g ! i = g ! i @ (if ?d = int i then [x] else [])"
    using Cons.prems r by (auto simp: nth_list_update)
  with Cons.IH [OF len Cons.prems(2)] r show ?case
    by (simp add: Let_def)
qed

lemma groupByDay_nth:
  "i < 7 \<Longrightarrow> groupByDay evs ! i = filter (\<lambda>e. dayIndex (getEventPosition evs e) = int i) evs"
  unfolding groupByDay_def by (subst groupByDay_fold) auto

lemma length_groupByDay: "length (groupByDay evs) = 7"
proof -
  have "length g = 7 \<Longrightarrow> length (foldl (\<lambda>grouped event.
            let d = dayIndex (getEventPosition evs event)
            in if 0 \<le> d \<and> d < 7 then grouped[nat d := grouped ! nat d @ [event]] else grouped) g xs) = 7" for g xs
    by (induction xs arbitrary: g) (auto simp: Let_def)
  then show ?thesis by (simp add: groupByDay_def)
qed

lemma sortByStart_eq_Nil: "(sortByStart xs = []) = (xs = [])"
  unfolding sortByStart_def by (metis length_sort length_0_conv)

lemma eventsByDay_nonempty:
  "i < 7 \<Longrightarrow>
   (eventsByDay evs ! i \<noteq> []) = (\<exists>e\<in>set evs. dayIndex (getEventPosition evs e) = int i)"
  by (auto simp: eventsByDay_def length_groupByDay groupByDay_nth sortByStart_eq_Nil
      filter_empty_conv)

text \<open>
  Claim C10.  For every list of displayed events, the rendered day columns
  contain Monday to Friday (indices 0 to 4) and nothing beyond index 6; they
  contain Saturday (index 5) exactly when some event starts on a Saturday
  (\<open>getDay\<close> is 6), and Sunday (index 6) exactly when some event starts on a
  Sunday (\<open>getDay\<close> is 0).  A weekend day without events gets no column.
\<close>

theorem visibleDayIndices_weekend:
  "{0, 1, 2, 3, 4} \<subseteq> set (visibleDayIndices evs)
   \<and> set (visibleDayIndices evs) \<subseteq> {0, 1, 2, 3, 4, 5, 6}
   \<and> (5 \<in> set (visibleDayIndices evs) \<longleftrightarrow> (\<exists>e\<in>set evs. getDay (start e) = 6))
   \<and> (6 \<in> set (visibleDayIndices evs) \<longleftrightarrow> (\<exists>e\<in>set evs. getDay (start e) = 0))"
proof -
  have "(dayIndex (getEventPosition evs e) = 5) = (getDay (start e) = 6)" for e
    by (simp add: dayIndex_getEventPosition)
  then have sat: "(eventsByDay evs ! 5 \<noteq> []) = (\<exists>e\<in>set evs. getDay (start e) = 6)"
    by (simp add: eventsByDay_nonempty)
  have "(dayIndex (getEventPosition evs e) = 6) = (getDay (start e) = 0)" for e
    using getDay_range [of "start e"] by (simp add: dayIndex_getEventPosition)
  then have sun: "(eventsByDay evs ! 6 \<noteq> []) = (\<exists>e\<in>set evs. getDay (start e) = 0)"
    by (simp add: eventsByDay_nonempty)
  show ?thesis
    using sat sun by (auto simp: visibleDayIndices_def)
qed

theorem visibleDayIndices_weekend_witness:
  "5 \<in> set (visibleDayIndices [sampleEvent 6 10 0 11 0 ''Yoga''])
   \<and> 6 \<notin> set (visibleDayIndices [sampleEvent 6 10 0 11 0 ''Yoga''])"
  using visibleDayIndices_weekend [of "[sampleEvent 6 10 0 11 0 ''Yoga'']"]
  by (simp add: sampleEvent_def date_defs)

subsection \<open>Merged intervals, segments and the coordinate mapping\<close>

lemma clippedIntervals_within:
  "iv \<in> set (clippedIntervals evs) \<Longrightarrow> inWindow (visibleStartMin evs) (visibleEndMin evs) iv"
  by (auto simp: clippedIntervals_def inWindow_def)

lemma mergeStep_ok:
  assumes "mergedOk lo hi ms" and "inWindow lo hi iv"
  shows "mergedOk lo hi (mergeStep ms iv)"
proof (cases ms rule: rev_cases)
  case Nil
  with assms show ?thesis by (simp add: mergeStep_def mergedOk_def)
next
  case (snoc ys y)
  from assms(1) snoc have ys: "\<forall>m\<in>set ys. inWindow lo hi m" and y: "inWindow lo hi y"
    and s: "sorted_wrt separated ys" and b: "\<forall>x\<in>set ys. separated x y"
    by (auto simp: mergedOk_def sorted_wrt_append)
  show ?thesis
  proof (cases "ivStart iv > ivEnd y")
    case True
    have "\<forall>x\<in>set ys. separated x iv"
      using b y True by (auto simp: separated_def inWindow_def)
    with True ys y s b assms(2) snoc show ?thesis
      by (auto simp: mergeStep_def mergedOk_def sorted_wrt_append separated_def)
  next
    case False
    let ?y = "y\<lparr> ivEnd := max (ivEnd y) (ivEnd iv) \<rparr>"
    have "inWindow lo hi ?y" using y assms(2) by (auto simp: inWindow_def)
    moreover have "\<forall>x\<in>set ys. separated x ?y" using b by (simp add: separated_def)
    ultimately show ?thesis
      using False ys s snoc by (auto simp: mergeStep_def mergedOk_def sorted_wrt_append)
  qed
qed

lemma foldl_mergeStep_ok:
  "mergedOk lo hi ms \<Longrightarrow> \<forall>iv\<in>set ivs. inWindow lo hi iv \<Longrightarrow> mergedOk lo hi (foldl mergeStep ms ivs)"
  by (induction ivs arbitrary: ms) (auto simp: mergeStep_ok)

lemma unionIntervals_ok:
  "mergedOk (visibleStartMin evs) (visibleEndMin evs) (unionIntervals evs)"
  unfolding unionIntervals_def
  by (rule foldl_mergeStep_ok) (auto simp: mergedOk_def clippedIntervals_within)

lemma unionIntervals_window:
  "unionIntervals evs \<noteq> [] \<Longrightarrow> visibleStartMin evs < visibleEndMin evs"
proof -
  assume "unionIntervals evs \<noteq> []"
  then obtain m where "m \<in> set (unionIntervals evs)" by (cases "unionIntervals evs") auto
  with unionIntervals_ok [of evs] have "inWindow (visibleStartMin evs) (visibleEndMin evs) m"
    by (simp add: mergedOk_def)
  then show ?thesis by (simp add: inWindow_def)
qed

lemma segments_unionIntervals:
  "unionIntervals evs \<noteq> [] \<Longrightarrow> segments evs = segmentsLoop (unionIntervals evs)"
  using unionIntervals_window [of evs] by (simp add: segments_def)

lemma betweenSegments_separated:
  "separated cur next \<Longrightarrow> betweenSegments cur next = [between cur next]"
  by (simp add: betweenSegments_def between_def separated_def Let_def visibleSegment_def
      HOUR_HEIGHT_def GAP_MARKER_HEIGHT_def MIN_COLLAPSIBLE_GAP_MINUTES_def)

lemma length_segmentsLoop:
  "sorted_wrt separated ms \<Longrightarrow> length (segmentsLoop ms) = 2 * length ms - 1"
  by (induction ms rule: segmentsLoop.induct) (auto simp: betweenSegments_separated)

lemma segmentsLoop_nth:
  "sorted_wrt separated ms \<Longrightarrow> Suc i < length ms \<Longrightarrow>
   segmentsLoop ms ! (2 * i) = visibleSegment (ivStart (ms ! i)) (ivEnd (ms ! i))
   \<and> segmentsLoop ms ! (2 * i + 1) = between (ms ! i) (ms ! Suc i)
   \<and> segmentsLoop ms ! (2 * i + 2) = visibleSegment (ivStart (ms ! Suc i)) (ivEnd (ms ! Suc i))"
proof (induction ms arbitrary: i rule: segmentsLoop.induct)
  case 1
  then show ?case by simp
next
  case (2 cur)
  then show ?case by simp
next
  case (3 cur nxt rest)
  show ?case
  proof (cases i)
    case 0
    with 3 show ?thesis
      by (cases rest) (auto simp: betweenSegments_separated)
  next
    case (Suc j)
    with 3 show ?thesis
      by (auto simp: betweenSegments_separated)
  qed
qed

lemma segmentsLoop_gaps:
  "sorted_wrt separated ms \<Longrightarrow> s \<in> set (segmentsLoop ms) \<Longrightarrow> segType s = gap \<Longrightarrow>
   segEnd s - segStart s \<ge> 60 \<and> height s = 16"
  by (induction ms rule: segmentsLoop.induct)
     (auto simp: betweenSegments_separated between_def visibleSegment_def split: if_splits)


lemma visibleSegment_ok: "s \<le> e \<Longrightarrow> segmentOk (visibleSegment s e)"
  by (simp add: segmentOk_def visibleSegment_def HOUR_HEIGHT_def)

lemma between_ok: "separated cur nxt \<Longrightarrow> segmentOk (between cur nxt)"
  by (simp add: segmentOk_def between_def separated_def)

lemma segmentsLoop_ok:
  "mergedOk lo hi ms \<Longrightarrow> s \<in> set (segmentsLoop ms) \<Longrightarrow> segmentOk s"
proof (induction ms rule: segmentsLoop.induct)
  case 1
  then show ?case by simp
next
  case (2 cur)
  then show ?case by (auto simp: mergedOk_def inWindow_def visibleSegment_ok)
next
  case (3 cur nxt rest)
  from "3.prems"(1) have sep: "separated cur nxt" and cur: "ivStart cur \<le> ivEnd cur"
    and rest: "mergedOk lo hi (nxt # rest)"
    by (auto simp: mergedOk_def inWindow_def)
  from "3.prems"(2) consider "s = visibleSegment (ivStart cur) (ivEnd cur)"
    | "s = between cur nxt" | "s \<in> set (segmentsLoop (nxt # rest))"
    by (auto simp: betweenSegments_separated [OF sep])
  then show ?case
  proof cases
    case 1
    with cur show ?thesis by (simp add: visibleSegment_ok)
  next
    case 2
    with sep show ?thesis by (simp add: between_ok)
  next
    case 3
    with "3.IH" rest show ?thesis by simp
  qed
qed

lemma segments_ok: "s \<in> set (segments evs) \<Longrightarrow> segmentOk s"
proof (cases "unionIntervals evs = []")
  case True
  assume "s \<in> set (segments evs)"
  with True show ?thesis
    by (auto simp: segments_def visibleSegment_ok split: if_splits)
next
  case False
  assume "s \<in> set (segments evs)"
  with False show ?thesis
    using segmentsLoop_ok [OF unionIntervals_ok, of s evs]
    by (simp add: segments_unionIntervals)
qed

lemma mapLoop_ge:
  "\<forall>s\<in>set segs. segmentOk s \<Longrightarrow> y \<le> mapLoop c segs y"
proof (induction segs arbitrary: y)
  case Nil
  then show ?case by simp
next
  case (Cons seg segs)
  have "y \<le> y + height seg" using Cons.prems by (simp add: segmentOk_def)
  also have "\<dots> \<le> mapLoop c segs (y + height seg)" using Cons by simp
  finally show ?case
    by (auto simp: HOUR_HEIGHT_def)
qed

lemma mapLoop_mono:
  "\<forall>s\<in>set segs. segmentOk s \<Longrightarrow> c \<le> c' \<Longrightarrow> mapLoop c segs y \<le> mapLoop c' segs y"
proof (induction segs arbitrary: y)
  case Nil
  then show ?case by simp
next
  case (Cons seg segs)
  have ok: "segmentOk seg" and oks: "\<forall>s\<in>set segs. segmentOk s"
    using Cons.prems by auto
  have ge: "y \<le> mapLoop c' (seg # segs) y"
    by (rule mapLoop_ge) (use Cons.prems in simp)
  consider "c < segStart seg" | "segStart seg \<le> c" "segEnd seg \<le> c"
    | "segStart seg \<le> c" "c < segEnd seg" "c' < segEnd seg"
    | "segStart seg \<le> c" "c < segEnd seg" "segEnd seg \<le> c'"
    by linarith
  then show ?case
  proof cases
    case 1
    with ge show ?thesis by simp
  next
    case 2
    with Cons.IH [OF oks Cons.prems(2)] Cons.prems(2) show ?thesis by simp
  next
    case 3
    with Cons.prems(2) show ?thesis by (simp add: HOUR_HEIGHT_def)
  next
    case 4
    have "y + height seg \<le> mapLoop c' segs (y + height seg)"
      by (rule mapLoop_ge [OF oks])
    moreover have "mapLoop c (seg # segs) y \<le> y + height seg"
      using 4 ok by (auto simp: segmentOk_def HOUR_HEIGHT_def)
    ultimately show ?thesis using 4 Cons.prems(2) by simp
  qed
qed

text \<open>
  Claim C2.  The mapping from minutes of the day to the vertical offset is
  monotonic: for minute values \<open>a \<le> b\<close>, \<open>mapMinToY a \<le> mapMinToY b\<close>.  This
  holds for all values, so in particular for \<open>a < b\<close> inside the visible window.
\<close>

theorem mapMinToY_monotonic:
  "a \<le> b \<Longrightarrow> mapMinToY evs a \<le> mapMinToY evs b"
  unfolding mapMinToY_def Let_def
  by (rule mapLoop_mono) (auto simp: segments_ok)

theorem mapMinToY_monotonic_witness:
  "(600 :: rat) \<le> 720
   \<and> mapMinToY [sampleEvent 1 9 0 10 0 ''Yoga'', sampleEvent 1 12 0 13 0 ''Pilates''] 600
       \<le> mapMinToY [sampleEvent 1 9 0 10 0 ''Yoga'', sampleEvent 1 12 0 13 0 ''Pilates''] 720"
  using mapMinToY_monotonic
    [of 600 720 "[sampleEvent 1 9 0 10 0 ''Yoga'', sampleEvent 1 12 0 13 0 ''Pilates'']"]
  by simp

text \<open>
  Claim C3.  Between every two consecutive merged busy intervals there is a
  positive idle stretch, and the segment list holds exactly one segment for it,
  between the visible segments of the two intervals: a gap segment of the fixed
  height 16 when the stretch lasts 60 minutes or more, and otherwise a visible
  segment at the scale of the busy intervals.  Every gap segment in the list
  covers at least 60 minutes.
\<close>

theorem segments_between_merged:
  "(\<forall>i. Suc i < length (unionIntervals evs) \<longrightarrow>
      (let cur = unionIntervals evs ! i;
           nxt = unionIntervals evs ! Suc i;
           idle = ivStart nxt - ivEnd cur
       in 0 < idle
          \<and> segments evs ! (2 * i) = visibleSegment (ivStart cur) (ivEnd cur)
          \<and> segments evs ! (2 * i + 1) =
               (if idle \<ge> 60
                then \<lparr> segType = gap, segStart = ivEnd cur, segEnd = ivStart nxt, height = 16 \<rparr>
                else \<lparr> segType = visible, segStart = ivEnd cur, segEnd = ivStart nxt,
                       height = (idle / 60) * HOUR_HEIGHT \<rparr>)
          \<and> segments evs ! (2 * i + 2) = visibleSegment (ivStart nxt) (ivEnd nxt)))
   \<and> (\<forall>s\<in>set (segments evs). segType s = gap \<longrightarrow> segEnd s - segStart s \<ge> 60 \<and> height s = 16)"
proof (rule conjI; intro allI impI ballI)
  fix i
  assume i: "Suc i < length (unionIntervals evs)"
  then have ne: "unionIntervals evs \<noteq> []" by auto
  have srt: "sorted_wrt separated (unionIntervals evs)"
    using unionIntervals_ok [of evs] by (simp add: mergedOk_def)
  then have "separated (unionIntervals evs ! i) (unionIntervals evs ! Suc i)"
    using i by (simp add: sorted_wrt_iff_nth_less)
  with segmentsLoop_nth [OF srt i]
  show "let cur = unionIntervals evs ! i;
           nxt = unionIntervals evs ! Suc i;
           idle = ivStart nxt - ivEnd cur
       in 0 < idle
          \<and> segments evs ! (2 * i) = visibleSegment (ivStart cur) (ivEnd cur)
          \<and> segments evs ! (2 * i + 1) =
               (if idle \<ge> 60
                then \<lparr> segType = gap, segStart = ivEnd cur, segEnd = ivStart nxt, height = 16 \<rparr>
                else \<lparr> segType = visible, segStart = ivEnd cur, segEnd = ivStart nxt,
                       height = (idle / 60) * HOUR_HEIGHT \<rparr>)
          \<and> segments evs ! (2 * i + 2) = visibleSegment (ivStart nxt) (ivEnd nxt)"
    by (simp add: segments_unionIntervals [OF ne] Let_def between_def separated_def HOUR_HEIGHT_def)
next
  fix s
  assume s: "s \<in> set (segments evs)" "segType s = gap"
  have srt: "sorted_wrt separated (unionIntervals evs)"
    using unionIntervals_ok [of evs] by (simp add: mergedOk_def)
  show "segEnd s - segStart s \<ge> 60 \<and> height s = 16"
  proof (cases "unionIntervals evs = []")
    case True
    with s show ?thesis by (auto simp: segments_def visibleSegment_def split: if_splits)
  next
    case False
    with s segmentsLoop_gaps [OF srt, of s] show ?thesis
      by (simp add: segments_unionIntervals)
  qed
qed

theorem segments_between_merged_witness:
  "Suc 0 < length (unionIntervals
      [sampleEvent 1 9 0 10 0 ''Yoga'', sampleEvent 1 12 0 13 0 ''Pilates'',
       sampleEvent 2 13 30 14 0 ''Spin''])
   \<and> segments
      [sampleEvent 1 9 0 10 0 ''Yoga'', sampleEvent 1 12 0 13 0 ''Pilates'',
       sampleEvent 2 13 30 14 0 ''Spin''] ! 1
     = \<lparr> segType = gap, segStart = 600, segEnd = 720, height = 16 \<rparr>
   \<and> segments
      [sampleEvent 1 9 0 10 0 ''Yoga'', sampleEvent 1 12 0 13 0 ''Pilates'',
       sampleEvent 2 13 30 14 0 ''Spin''] ! 3
     = \<lparr> segType = visible, segStart = 780, segEnd = 810, height = 30 \<rparr>"
proof -
  let ?E = "[sampleEvent 1 9 0 10 0 ''Yoga'', sampleEvent 1 12 0 13 0 ''Pilates'',
             sampleEvent 2 13 30 14 0 ''Spin'']"
  have u: "unionIntervals ?E =
     [\<lparr>ivStart = 540, ivEnd = 600\<rparr>, \<lparr>ivStart = 720, ivEnd = 780\<rparr>,
      \<lparr>ivStart = 810, ivEnd = 840\<rparr>]"
    by (simp add: unionIntervals_def mergeStep_def clippedIntervals_def visibleStartMin_def
        visibleEndMin_def visibleWindow_def sampleEvent_def date_defs minutesOfDay_def)
  note h = segments_between_merged [of ?E, THEN conjunct1, rule_format]
  have len: "Suc 0 < length (unionIntervals ?E)" "Suc 1 < length (unionIntervals ?E)"
    by (simp_all add: u)
  have "segments ?E ! 1 = \<lparr> segType = gap, segStart = 600, segEnd = 720, height = 16 \<rparr>"
    using h [OF len(1)] by (simp add: u Let_def)
  moreover
  have "segments ?E ! 3 = \<lparr> segType = visible, segStart = 780, segEnd = 810, height = 30 \<rparr>"
    using h [OF len(2)] by (simp add: u Let_def HOUR_HEIGHT_def)
  ultimately show ?thesis
    using len(1) by simp
qed

subsection \<open>Overlap packing\<close>

lemma columnOk_snoc:
  assumes "columnOk col" "precedes (last col) ev" "positive ev"
  shows "columnOk (col @ [ev])"
proof -
  from assms(1) obtain ys y where col: "col = ys @ [y]"
    by (cases col rule: rev_cases) (auto simp: columnOk_def)
  with assms(1) have "\<forall>x\<in>set ys. precedes x y" and y: "positive y"
    by (auto simp: columnOk_def sorted_wrt_append)
  with assms(2) col have "\<forall>x\<in>set col. precedes x ev"
    by (auto simp: precedes_def positive_def)
  with assms show ?thesis
    by (auto simp: columnOk_def sorted_wrt_append)
qed

lemma place_ok:
  "\<forall>col\<in>set cols. columnOk col \<Longrightarrow> positive ev \<Longrightarrow> \<forall>col\<in>set (place cols ev). columnOk col"
proof (induction cols)
  case Nil
  then show ?case by (simp add: columnOk_def)
next
  case (Cons col cols)
  then show ?case
    by (auto simp: columnOk_snoc precedes_def)
qed

lemma place_mset: "mset (concat (place cols ev)) = mset (concat cols) + {#ev#}"
  by (induction cols) auto

lemma place_length:
  "length (place cols ev) = (if \<exists>col\<in>set cols. precedes (last col) ev then length cols else Suc (length cols))"
  by (induction cols) (auto simp: precedes_def)

lemma column_overlapCount:
  "sorted_wrt precedes col \<Longrightarrow> length (filter (contains t) col) \<le> 1"
proof (induction col)
  case Nil
  then show ?case by simp
next
  case (Cons a col)
  show ?case
  proof (cases "contains t a")
    case True
    with Cons.prems have "\<forall>b\<in>set col. \<not> contains t b"
      by (auto simp: precedes_def contains_def)
    then have "filter (contains t) col = []" by (simp add: filter_empty_conv)
    with True show ?thesis by simp
  next
    case False
    with Cons show ?thesis by simp
  qed
qed

lemma columns_overlapCount:
  "\<forall>col\<in>set cols. sorted_wrt precedes col \<Longrightarrow> length (filter (contains t) (concat cols)) \<le> length cols"
proof (induction cols)
  case Nil
  then show ?case by simp
next
  case (Cons col cols)
  from Cons.prems have "length (filter (contains t) col) \<le> 1"
    using column_overlapCount [of col t] by simp
  moreover from Cons have "length (filter (contains t) (concat cols)) \<le> length cols" by simp
  ultimately show ?case by simp
qed

lemma last_overlapCount:
  "\<forall>col\<in>set cols. col \<noteq> [] \<and> contains t (last col) \<Longrightarrow> length cols \<le> length (filter (contains t) (concat cols))"
proof (induction cols)
  case Nil
  then show ?case by simp
next
  case (Cons col cols)
  then have "last col \<in> set (filter (contains t) col)" by simp
  then have "1 \<le> length (filter (contains t) col)"
    by (metis One_nat_def Suc_leI length_pos_if_in_set)
  moreover from Cons have "length cols \<le> length (filter (contains t) (concat cols))" by simp
  ultimately show ?case by simp
qed

lemma overlapCount_mset:
  "mset xs = mset ys \<Longrightarrow> length (filter P xs) = length (filter P ys)"
  by (metis mset_filter size_mset)

lemma place_filter_length:
  "length (filter P (concat (place cols ev))) = length (filter P (concat cols)) + (if P ev then 1 else 0)"
  by (induction cols) auto

lemma place_tight:
  assumes ok: "\<forall>col\<in>set cols. columnOk col" and pos: "positive ev"
    and le: "\<forall>e\<in>set (concat cols). getTime (start e) \<le> getTime (start ev)"
    and t: "tight cols"
  shows "tight (place cols ev)"
proof (cases "\<exists>col\<in>set cols. precedes (last col) ev")
  case True
  then have len: "length (place cols ev) = length cols" by (simp add: place_length)
  show ?thesis
  proof (cases "cols = []")
    case True
    then show ?thesis by (auto simp: tight_def contains_def intro!: exI [of _ "getTime (start ev)"] pos [unfolded positive_def])
  next
    case False
    with t obtain t' where "length cols \<le> length (filter (contains t') (concat cols))"
      by (auto simp: tight_def)
    also have "\<dots> \<le> length (filter (contains t') (concat (place cols ev)))"
      by (simp add: place_filter_length)
    finally show ?thesis using len by (auto simp: tight_def)
  qed
next
  case False
  then have len: "length (place cols ev) = Suc (length cols)" by (simp add: place_length)
  let ?t = "getTime (start ev)"
  have "\<forall>col\<in>set cols. col \<noteq> [] \<and> contains ?t (last col)"
  proof
    fix col assume c: "col \<in> set cols"
    with ok have ne: "col \<noteq> []" by (simp add: columnOk_def)
    then have "last col \<in> set (concat cols)" using c last_in_set by fastforce
    with le have "getTime (start (last col)) \<le> ?t" by blast
    moreover from False c have "\<not> precedes (last col) ev" by blast
    ultimately show "col \<noteq> [] \<and> contains ?t (last col)"
      using ne by (simp add: contains_def precedes_def)
  qed
  then have "length cols \<le> length (filter (contains ?t) (concat cols))"
    by (rule last_overlapCount)
  moreover have "contains ?t ev" using pos by (simp add: contains_def positive_def)
  ultimately have "Suc (length cols) \<le> length (filter (contains ?t) (concat (place cols ev)))"
    by (simp add: place_filter_length)
  then show ?thesis using len by (auto simp: tight_def)
qed


lemma foldl_place:
  assumes "\<forall>col\<in>set cols. columnOk col" and "\<forall>e\<in>set xs. positive e"
    and "sorted (map (\<lambda>e. getTime (start e)) xs)"
    and "\<forall>e\<in>set (concat cols). \<forall>x\<in>set xs. getTime (start e) \<le> getTime (start x)"
    and "tight cols"
  shows "(\<forall>col\<in>set (foldl place cols xs). columnOk col) \<and> tight (foldl place cols xs)
         \<and> mset (concat (foldl place cols xs)) = mset (concat cols) + mset xs"
  using assms
proof (induction xs arbitrary: cols)
  case Nil
  then show ?case by simp
next
  case (Cons x xs)
  have ok: "\<forall>col\<in>set (place cols x). columnOk col"
    by (rule place_ok) (use Cons.prems in auto)
  have t: "tight (place cols x)"
    using Cons.prems by (intro place_tight) auto
  have "set (concat (place cols x)) = set (concat cols) \<union> {x}"
    using place_mset [of cols x, THEN arg_cong [of _ _ set_mset]] by simp
  with Cons.prems have le: "\<forall>e\<in>set (concat (place cols x)). \<forall>y\<in>set xs. getTime (start e) \<le> getTime (start y)"
    by auto
  from Cons.IH [OF ok _ _ le t] Cons.prems show ?case
    by (simp add: place_mset)
qed

lemma packColumns_facts:
  assumes "\<forall>e\<in>set evs. positive e"
  shows "(\<forall>col\<in>set (packColumns evs). columnOk col) \<and> tight (packColumns evs)
         \<and> mset (concat (packColumns evs)) = mset evs"
proof -
  have "(\<forall>col\<in>set (foldl place [] (sortByStart evs)). columnOk col) \<and> tight (foldl place [] (sortByStart evs))
         \<and> mset (concat (foldl place [] (sortByStart evs))) = mset (concat []) + mset (sortByStart evs)"
    by (rule foldl_place) (use assms in \<open>auto simp: sortByStart_def tight_def\<close>)
  then show ?thesis by (simp add: packColumns_def sortByStart_def)
qed

text \<open>
  Claim C1.  For one day's events, each with \<open>start < end\<close>, the greedy packing
  (stable sort by start; each event into the first column whose last event ends
  by its start, else into a new column) places every event exactly once; in each
  column an earlier event ends by the start of every later one, so no two events
  of a column overlap; and the number of columns is the maximum, over all
  instants, of the number of events running at that instant: no instant has
  more events running than there are columns, and some instant has as many.
\<close>

theorem packColumns_correct:
  assumes "\<forall>e\<in>set dayEvents. getTime (start e) < getTime (end_ev e)"
  shows "mset (concat (packColumns dayEvents)) = mset dayEvents
     \<and> (\<forall>col\<in>set (packColumns dayEvents). \<forall>i j. i < j \<and> j < length col \<longrightarrow>
           getTime (end_ev (col ! i)) \<le> getTime (start (col ! j)) \<and> \<not> overlap (col ! i) (col ! j))
     \<and> (\<forall>t. overlapCount dayEvents t \<le> length (packColumns dayEvents))
     \<and> (\<exists>t. overlapCount dayEvents t = length (packColumns dayEvents))"
proof -
  from assms have pos: "\<forall>e\<in>set dayEvents. positive e" by (simp add: positive_def)
  note f = packColumns_facts [OF pos]
  from f have m: "mset (concat (packColumns dayEvents)) = mset dayEvents" by simp
  have cnt: "overlapCount dayEvents t = length (filter (contains t) (concat (packColumns dayEvents)))" for t
    unfolding overlapCount_def by (rule overlapCount_mset) (simp add: m)
  have a: "\<forall>col\<in>set (packColumns dayEvents). \<forall>i j. i < j \<and> j < length col \<longrightarrow>
           getTime (end_ev (col ! i)) \<le> getTime (start (col ! j)) \<and> \<not> overlap (col ! i) (col ! j)"
  proof (intro ballI allI impI)
    fix col i j
    assume "col \<in> set (packColumns dayEvents)" "i < j \<and> j < length col"
    with f have "precedes (col ! i) (col ! j)"
      by (auto simp: columnOk_def sorted_wrt_iff_nth_less)
    then show "getTime (end_ev (col ! i)) \<le> getTime (start (col ! j)) \<and> \<not> overlap (col ! i) (col ! j)"
      by (simp add: precedes_def overlap_def)
  qed
  have b: "\<forall>t. overlapCount dayEvents t \<le> length (packColumns dayEvents)"
    using f by (auto simp: cnt columnOk_def intro!: columns_overlapCount)
  have c: "\<exists>t. overlapCount dayEvents t = length (packColumns dayEvents)"
  proof (cases "packColumns dayEvents = []")
    case True
    with m have "dayEvents = []" by (metis concat.simps(1) mset_zero_iff)
    with True show ?thesis by (simp add: overlapCount_def)
  next
    case False
    with f obtain t where "length (packColumns dayEvents) \<le> overlapCount dayEvents t"
      by (auto simp: tight_def cnt)
    with b show ?thesis by (metis le_antisym)
  qed
  from m a b c show ?thesis by blast
qed

theorem packColumns_correct_witness:
  "getTime (start (sampleEvent 1 9 0 10 0 ''Yoga''))
     < getTime (end_ev (sampleEvent 1 9 0 10 0 ''Yoga''))
   \<and> getTime (start (sampleEvent 1 9 30 10 30 ''Pilates''))
     < getTime (end_ev (sampleEvent 1 9 30 10 30 ''Pilates''))
   \<and> packColumns [sampleEvent 1 9 0 10 0 ''Yoga'', sampleEvent 1 9 30 10 30 ''Pilates'']
       = [[sampleEvent 1 9 0 10 0 ''Yoga''], [sampleEvent 1 9 30 10 30 ''Pilates'']]
   \<and> (\<forall>t. overlapCount [sampleEvent 1 9 0 10 0 ''Yoga'', sampleEvent 1 9 30 10 30 ''Pilates''] t
          \<le> 2)"
proof -
  let ?E = "[sampleEvent 1 9 0 10 0 ''Yoga'', sampleEvent 1 9 30 10 30 ''Pilates'']"
  have h: "\<forall>e\<in>set ?E. getTime (start e) < getTime (end_ev e)"
    by (simp add: sampleEvent_def date_defs)
  have p: "packColumns ?E
           = [[sampleEvent 1 9 0 10 0 ''Yoga''], [sampleEvent 1 9 30 10 30 ''Pilates'']]"
    by (simp add: packColumns_def sortByStart_def sampleEvent_def date_defs)
  from packColumns_correct [OF h] have "\<forall>t. overlapCount ?E t \<le> length (packColumns ?E)"
    by blast
  then have "\<forall>t. overlapCount ?E t \<le> 2"
    by (simp add: p numeral_2_eq_2)
  with h p show ?thesis by simp
qed

section \<open>Properties of the decoder\<close>

subsection \<open>Rows and colors\<close>

lemma length_COLORS: "length COLORS = 8"
  by (simp add: COLORS_def)

lemma getColor_new:
  "map_of cm ttl = None \<Longrightarrow>
   getColor ttl cm =
     Inr (paletteEntry (length cm mod 8), cm @ [(ttl, paletteEntry (length cm mod 8))])"
  by (simp add: getColor_def Let_def paletteEntry_def length_COLORS map_add_def)

lemma getColor_old:
  "map_of cm ttl = Some c \<Longrightarrow> getColor ttl cm = Inr (c, cm)"
  by (simp add: getColor_def)


lemma decodeRow_Inr:
  assumes "decodeRow index columns cm = Inr (ev, cm')"
  shows "rowDates columns = Some (start ev, end_ev ev)
       \<and> title ev = columns ! 2
       \<and> description ev = columns ! 3
       \<and> capacity ev = orZero (parseInt (columns ! 4))
       \<and> total_ev ev = orZero (parseInt (columns ! 5))
       \<and> waiting ev = orZero (parseInt (columns ! 6))
       \<and> price ev = orZeroNumber (parseFloat (columns ! 7))
       \<and> (\<exists>bg text. getColor (columns ! 2) cm = Inr ((bg, text), cm') \<and> color ev = bg @ '' '' @ text)"
  using assms
  by (auto simp: decodeRow_def rowDates_def
      split: if_splits list.splits option.splits sum.splits prod.splits)


lemma decodeRow_fail:
  assumes "\<not> rowChecksPass columns"
  shows "\<exists>e. decodeRow index columns cm = Inl e"
  using assms
  by (auto simp: decodeRow_def rowChecksPass_def rowDates_def
      split: if_splits list.splits option.splits)


lemma decodeRows_Inr:
  assumes "decodeRows index rows cm = Inr (evs, cm')"
  shows "length evs = length rows \<and> (\<forall>row\<in>set rows. rowChecksPass row)"
  using assms
proof (induction rows arbitrary: index cm evs)
  case Nil
  then show ?case by simp
next
  case (Cons row rows)
  from Cons.prems obtain ev cm1 evs1 where
    r: "decodeRow index row cm = Inr (ev, cm1)" and
    rs: "decodeRows (Suc index) rows cm1 = Inr (evs1, cm')" and e: "evs = ev # evs1"
    by (auto split: sum.splits prod.splits)
  from r have "rowChecksPass row"
    using decodeRow_Inr [OF r] by (simp add: rowChecksPass_def)
  with Cons.IH [OF rs] e show ?case by simp
qed


lemma takeWhile_neq_append:
  "t \<in> set seen \<Longrightarrow> takeWhile (\<lambda>x. x \<noteq> t) (seen @ rest) = takeWhile (\<lambda>x. x \<noteq> t) seen"
  by (induction seen) auto

lemma takeWhile_neq_new:
  "t \<notin> set seen \<Longrightarrow> takeWhile (\<lambda>x. x \<noteq> t) (seen @ t # rest) = seen"
  by (induction seen) auto

lemma distinctBefore_new:
  "t \<notin> set seen \<Longrightarrow> distinctBefore (seen @ t # rest) t = card (set seen)"
  by (simp add: distinctBefore_def takeWhile_neq_new)

lemma consistent_step:
  assumes c: "consistent cm seen" and g: "getColor t cm = Inr (col, cm')"
  shows "consistent cm' (seen @ [t]) \<and> col = paletteEntry (distinctBefore (seen @ t # rest) t mod 8)"
proof (cases "map_of cm t")
  case None
  then have notin: "t \<notin> set seen"
    using c by (auto simp: consistent_def map_of_eq_None_iff)
  have len: "length cm = card (set seen)"
    using c by (metis consistent_def distinct_card length_map)
  from None g have col: "col = paletteEntry (length cm mod 8)" and cm': "cm' = cm @ [(t, col)]"
    by (auto simp: getColor_new)
  have old: "\<forall>(u, d)\<in>set cm. d = paletteEntry (distinctBefore (seen @ [t]) u mod 8)"
  proof (clarify)
    fix u d assume ud: "(u, d) \<in> set cm"
    then have "u \<in> set seen" using c by (force simp: consistent_def)
    with ud c show "d = paletteEntry (distinctBefore (seen @ [t]) u mod 8)"
      by (auto simp: consistent_def distinctBefore_def takeWhile_neq_append)
  qed
  have "distinctBefore (seen @ [t]) t = card (set seen)"
    using distinctBefore_new [OF notin, of "[]"] by simp
  with old c notin col cm' len distinctBefore_new [OF notin, of rest] show ?thesis
    by (auto simp: consistent_def)
next
  case (Some d)
  then have tin: "t \<in> set seen"
    using c by (metis consistent_def map_of_eq_None_iff option.distinct(1) set_map)
  from Some g have col: "col = d" and cm': "cm' = cm" by (auto simp: getColor_old)
  from Some have "(t, d) \<in> set cm" by (rule map_of_SomeD)
  with c have d: "d = paletteEntry (distinctBefore seen t mod 8)" by (auto simp: consistent_def)
  have "\<forall>(u, d)\<in>set cm. d = paletteEntry (distinctBefore (seen @ [t]) u mod 8)"
  proof (clarify)
    fix u d assume ud: "(u, d) \<in> set cm"
    then have "u \<in> set seen" using c by (force simp: consistent_def)
    with ud c show "d = paletteEntry (distinctBefore (seen @ [t]) u mod 8)"
      by (auto simp: consistent_def distinctBefore_def takeWhile_neq_append)
  qed
  with c tin col cm' d show ?thesis
    by (auto simp: consistent_def distinctBefore_def takeWhile_neq_append)
qed

lemma decodeRows_colors:
  assumes "decodeRows index rows cm = Inr (evs, cm')" and "consistent cm seen"
  shows "map title evs = map (\<lambda>row. row ! 2) rows
       \<and> consistent cm' (seen @ map title evs)
       \<and> (\<forall>k<length evs. color (evs ! k) = colorString (distinctBefore (seen @ map title evs) (title (evs ! k)) mod 8))"
  using assms
proof (induction rows arbitrary: index cm evs seen)
  case Nil
  then show ?case by simp
next
  case (Cons row rows)
  from Cons.prems(1) obtain ev cm1 evs1 where
    r: "decodeRow index row cm = Inr (ev, cm1)" and
    rs: "decodeRows (Suc index) rows cm1 = Inr (evs1, cm')" and e: "evs = ev # evs1"
    by (auto split: sum.splits prod.splits)
  from decodeRow_Inr [OF r] obtain bg fg where
    t: "title ev = row ! 2" and g: "getColor (title ev) cm = Inr ((bg, fg), cm1)"
    and col: "color ev = bg @ '' '' @ fg"
    by auto
  from consistent_step [OF Cons.prems(2) g, of "map title evs1"]
  have c1: "consistent cm1 (seen @ [title ev])"
    and p: "(bg, fg) = paletteEntry (distinctBefore (seen @ title ev # map title evs1) (title ev) mod 8)"
    by auto
  from Cons.IH [OF rs c1] have
    ih1: "map title evs1 = map (\<lambda>row. row ! 2) rows" and
    ih2: "consistent cm' ((seen @ [title ev]) @ map title evs1)" and
    ih3: "\<forall>k<length evs1. color (evs1 ! k)
            = colorString (distinctBefore ((seen @ [title ev]) @ map title evs1) (title (evs1 ! k)) mod 8)"
    by auto
  have "color ev = colorString (distinctBefore (seen @ title ev # map title evs1) (title ev) mod 8)"
    using col p by (metis colorString_def fst_conv snd_conv)
  with ih1 ih2 ih3 t e show ?case
    by (auto simp: nth_Cons split: nat.splits)
qed


lemma palette_distinct: "distinct (map colorString [0..<8])"
proof -
  have e: "[0..<8] = [0, 1, 2, 3, 4, 5, 6, 7 :: nat]"
    by (simp add: upt_rec)
  show ?thesis
    unfolding e by (simp add: colorString_def paletteEntry_def COLORS_def TEXT_COLORS_def)
qed

lemma colorString_inj: "i < 8 \<Longrightarrow> j < 8 \<Longrightarrow> i \<noteq> j \<Longrightarrow> colorString i \<noteq> colorString j"
proof -
  assume a: "i < 8" "j < 8" "i \<noteq> j"
  then have "map colorString [0..<8] ! i \<noteq> map colorString [0..<8] ! j"
    using palette_distinct by (simp add: nth_eq_iff_index_eq del: nth_map nth_upt)
  with a show ?thesis by simp
qed

text \<open>
  Claim C9.  In a batch decode that succeeds, the color map being empty at its
  start, every event keeps the title of its row, and gets the palette entry
  whose index is the number of distinct titles before the first occurrence of
  its title, modulo 8.  So events with the same title get the same color, the
  final map holds every title once with that entry, and the eight palette
  entries are pairwise different: the first and second distinct titles get the
  different entries 0 and 1.
\<close>

theorem color_by_first_seen_order:
  assumes "decodeEvents dataRows = Inr evs"
  shows "length evs = length dataRows
     \<and> (\<forall>k<length evs.
           title (evs ! k) = dataRows ! k ! 2
           \<and> color (evs ! k) = colorString (distinctBefore (map title evs) (title (evs ! k)) mod 8))
     \<and> (\<forall>j<length evs. \<forall>k<length evs.
           title (evs ! j) = title (evs ! k) \<longrightarrow> color (evs ! j) = color (evs ! k))
     \<and> (\<exists>colorMap. decodeRows 0 dataRows [] = Inr (evs, colorMap)
           \<and> distinct (map fst colorMap)
           \<and> set (map fst colorMap) = set (map title evs)
           \<and> (\<forall>(t, c)\<in>set colorMap. c = paletteEntry (distinctBefore (map title evs) t mod 8)))
     \<and> (\<forall>i<8. \<forall>j<8. i \<noteq> j \<longrightarrow> colorString i \<noteq> colorString j)"
proof -
  from assms obtain colorMap where d: "decodeRows 0 dataRows [] = Inr (evs, colorMap)"
    by (auto simp: decodeEvents_def split: sum.splits)
  have c0: "consistent [] []" by (simp add: consistent_def)
  note f = decodeRows_colors [OF d c0]
  from f have t: "\<forall>k<length evs. title (evs ! k) = dataRows ! k ! 2"
    by (metis length_map nth_map)
  from f have col: "\<forall>k<length evs.
      color (evs ! k) = colorString (distinctBefore (map title evs) (title (evs ! k)) mod 8)"
    by simp
  from f have cons: "consistent colorMap (map title evs)" by (metis append_Nil)
  from decodeRows_Inr [OF d] t col cons d colorString_inj show ?thesis
    by (auto simp: consistent_def)
qed


theorem color_by_first_seen_order_witness:
  "decodeEvents [yogaRow, pilatesRow] = Inr [yogaEvent, pilatesEvent]
   \<and> color yogaEvent = colorString 0 \<and> color pilatesEvent = colorString 1
   \<and> colorString 0 \<noteq> colorString 1"
proof -
  have d: "decodeEvents [yogaRow, pilatesRow] = Inr [yogaEvent, pilatesEvent]"
    by code_simp
  note h = color_by_first_seen_order [OF d]
  note c = h [THEN conjunct2, THEN conjunct1, rule_format]
  have "color yogaEvent = colorString 0"
    using c [of 0] by (simp add: distinctBefore_def)
  moreover have "color pilatesEvent = colorString 1"
    using c [of 1] by (simp add: distinctBefore_def yogaEvent_def pilatesEvent_def)
  moreover from h have "colorString 0 \<noteq> colorString 1" by simp
  ultimately show ?thesis using d by simp
qed

subsection \<open>Rows with too few fields\<close>







subsection \<open>Dates and times\<close>






subsection \<open>Numeric fields\<close>





subsection \<open>Start before end\<close>

text \<open>
  The event form blocks a save whose end is not after its start, and a form it
  hands to \<open>onSave\<close> has a title and a start strictly before its end.
\<close>

lemma handleSave_blocks:
  assumes "form_start formData = Some s" and "form_end formData = Some e" and "e \<le> s"
  shows "\<exists>m. handleSave formData = Alert m"
  using assms by (auto simp: handleSave_def split: option.splits)

lemma handleSave_saves:
  assumes "handleSave formData = OnSave saved"
  shows "saved = formData
     \<and> (\<exists>ttl s e. form_title formData = Some ttl \<and> ttl \<noteq> []
           \<and> form_start formData = Some s \<and> form_end formData = Some e \<and> s < e)"
  using assms by (auto simp: handleSave_def split: option.splits if_splits)

text \<open>
  Claim C4 says that a row whose end is not after its start is rejected by the
  bulk decoder.  The decoder has no such check: for the pasted text of a header
  and one row that ends an hour before it starts, \<open>handleGenerate\<close> reports no
  error and stores the event, whose end is before its start.
\<close>

theorem bulk_decode_accepts_end_before_start:
  "events (handleGenerate emptyState (TextInput (tsvText [headerRow, reversedRow]))) = [reversedEvent]
   \<and> error (handleGenerate emptyState (TextInput (tsvText [headerRow, reversedRow]))) = None
   \<and> getTime (end_ev reversedEvent) < getTime (start reversedEvent)"
  by code_simp

end
